theory Spec2Isabelle
  imports Main "HOL-Library.Word"
begin

section \<open>Memory, sizes and addresses\<close>

text \<open>
  The backend is compiled for an LP64 target: \<open>size_t\<close> and pointers are 64-bit
  unsigned values whose arithmetic wraps, a byte is 8 bits. A C \<open>int\<close> is modelled by
  \<open>int\<close>: signed overflow is undefined in C++, so there is no wrap-around to write out,
  and the conversion of an \<open>int\<close> operand to \<open>size_t\<close> in a mixed product is \<open>of_int\<close>.
  Each process has its own address space, a total map from addresses to bytes.
\<close>

type_synonym addr = "64 word"
type_synonym size_t = "64 word"
type_synonym byte = "8 word"
type_synonym memory = "addr \<Rightarrow> byte"

definition read_bytes :: "memory \<Rightarrow> addr \<Rightarrow> nat \<Rightarrow> byte list" where
  "read_bytes m a n = map (\<lambda>i. m (a + of_nat i)) [0..<n]"

definition write_bytes :: "memory \<Rightarrow> addr \<Rightarrow> byte list \<Rightarrow> memory" where
  "write_bytes m a bs = (\<lambda>x. if unat (x - a) < length bs then bs ! unat (x - a) else m x)"

text \<open>Two blocks of \<open>n\<close> bytes overlap when their starts are less than \<open>n\<close> apart.\<close>

definition overlap :: "addr \<Rightarrow> addr \<Rightarrow> nat \<Rightarrow> bool" where
  "overlap d s n = (unat (d - s) < n \<or> unat (s - d) < n)"

datatype error =
    OutOfRange    \<comment> \<open>\<open>std::out_of_range\<close> thrown by \<open>bimap::at\<close>\<close>
  | MPIError      \<comment> \<open>the fatal default MPI error handler: invalid rank\<close>
  | Blocked       \<comment> \<open>\<open>MPI_Probe\<close> waits for a frame that never comes\<close>
  | Undefined     \<comment> \<open>undefined behaviour of C++, where the model stops\<close>

section \<open>The bidirectional map of registered locations\<close>

text \<open>
  \<open>boost::bimap<void*, int>\<close>: a set of pairs in which every left key and every right
  key occurs once. \<open>insert\<close> does nothing when either key is present, \<open>at\<close> throws for a
  missing key, \<open>left.erase\<close> removes the pair of a left key.
\<close>

type_synonym bimap = "(addr \<times> int) list"

definition left_at :: "bimap \<Rightarrow> addr \<Rightarrow> error + int" where
  "left_at b a = (case map_of b a of None \<Rightarrow> Inl OutOfRange | Some i \<Rightarrow> Inr i)"

definition right_at :: "bimap \<Rightarrow> int \<Rightarrow> error + addr" where
  "right_at b i =
     (case map_of (map (\<lambda>(a, j). (j, a)) b) i of None \<Rightarrow> Inl OutOfRange | Some a \<Rightarrow> Inr a)"

definition bimap_insert :: "bimap \<Rightarrow> addr \<times> int \<Rightarrow> bimap" where
  "bimap_insert b e =
     (if fst e \<in> fst ` set b \<or> snd e \<in> snd ` set b then b else b @ [e])"


section \<open>Frames\<close>

record put_header =
  var_id :: int
  data_offset :: size_t

record get_header =
  g_var_id :: int
  g_data_offset :: size_t
  g_count :: int
  g_size :: size_t
  g_target :: addr

record get_response_header =
  r_target :: addr
  r_data_size :: size_t

text \<open>
  A frame on the wire is its header followed by the payload bytes; the constructor is the
  tag (\<open>receive_category\<close>) it is sent with. The enumeration also has \<open>message = 3\<close>,
  which no function of the class sends or receives.
\<close>

datatype frame =
    PUT put_header "byte list"
  | GET get_header
  | GET_RESPONSE get_response_header "byte list"

record envelope =
  env_src :: int
  env_dst :: int
  env_frame :: frame

definition sizeof_put_header :: nat where "sizeof_put_header = 16"
definition sizeof_get_header :: nat where "sizeof_get_header = 40"
definition sizeof_get_response_header :: nat where "sizeof_get_response_header = 16"

section \<open>The state of one process\<close>

text \<open>
  Names are those of the source, without the trailing underscore of its private members
  (\<open>pid_\<close>, \<open>put_counts_\<close>, \<open>internal_put_\<close>, ...), which Isabelle does not accept in a
  constant's name.
\<close>

datatype event =
    Barrier
  | Reduce_scatter_puts int
  | Reduce_scatter_gets int
  | Recv_put put_header "byte list"
  | Recv_get int get_header
  | Send_get_response int get_response_header "byte list"
  | Recv_get_response get_response_header "byte list"
  | Reset_counters

text \<open>
  The members of \<open>world_provider\<close>, the memory of the process, the frames that the
  transport holds for it (one queue per tag, in arrival order), and a history of the
  transport calls of \<open>sync\<close>, which the code does not have and no function reads.
\<close>

record peer =
  pid :: int
  nprocs :: int
  vars :: int
  locations :: bimap
  put_counts :: "int list"
  get_counts :: "int list"
  remote_puts :: int
  remote_gets :: int
  local_gets :: int
  mem :: memory
  rx_put :: "(put_header \<times> byte list) list"
  rx_get :: "(int \<times> get_header) list"
  rx_get_response :: "(get_response_header \<times> byte list) list"
  history :: "event list"

section \<open>The operations of \<open>world_provider\<close>\<close>

text \<open>
  The constructor: rank and group size come from the transport, the counters start at
  zero, nothing is registered.
\<close>

definition world_provider :: "int \<Rightarrow> int \<Rightarrow> memory \<Rightarrow> peer" where
  "world_provider rank group_size m =
     \<lparr>pid = rank, nprocs = group_size, vars = 0, locations = [],
      put_counts = replicate (nat group_size) 0, get_counts = replicate (nat group_size) 0,
      remote_puts = 0, remote_gets = 0, local_gets = 0,
      mem = m, rx_put = [], rx_get = [], rx_get_response = [], history = []\<rparr>"

definition active_processors :: "peer \<Rightarrow> int" where
  "active_processors p = nprocs p"

definition processor_id :: "peer \<Rightarrow> int" where
  "processor_id p = pid p"

text \<open>
  \<open>MPI_Send\<close> of a frame of \<open>n\<close> bytes: a rank outside the group is a fatal MPI error;
  \<open>n\<close> is passed as an \<open>int\<close>, and a frame that does not fit one is outside the model.
\<close>

definition mpi_send :: "peer \<Rightarrow> nat \<Rightarrow> int \<Rightarrow> frame \<Rightarrow> error + envelope" where
  "mpi_send p n dest f =
     (if 2 ^ 31 \<le> n then Inl Undefined
      else if dest < 0 \<or> nprocs p \<le> dest then Inl MPIError
      else Inr \<lparr>env_src = pid p, env_dst = dest, env_frame = f\<rparr>)"

text \<open>\<open>memcpy\<close> between two blocks of the process's memory; overlapping blocks are undefined.\<close>

definition memcpy :: "peer \<Rightarrow> addr \<Rightarrow> addr \<Rightarrow> nat \<Rightarrow> error + peer" where
  "memcpy p dst src n =
     (if overlap dst src n then Inl Undefined
      else Inr (p\<lparr>mem := write_bytes (mem p) dst (read_bytes (mem p) src n)\<rparr>))"

definition put_to_self :: "peer \<Rightarrow> addr \<Rightarrow> addr \<Rightarrow> size_t \<Rightarrow> int \<Rightarrow> int \<Rightarrow> error + peer" where
  "put_to_self p val variable sz offset count =
     memcpy p (variable + sz * of_int offset) val (unat (of_int count * sz))"

definition get_from_self :: "peer \<Rightarrow> addr \<Rightarrow> addr \<Rightarrow> size_t \<Rightarrow> int \<Rightarrow> int \<Rightarrow> error + peer" where
  "get_from_self p variable target sz offset count =
     memcpy p target (variable + sz * of_int offset) (unat (of_int count * sz))"

text \<open>The incremented vector element must exist: indexing past the end is undefined.\<close>

definition incr :: "int list \<Rightarrow> int \<Rightarrow> error + int list" where
  "incr cs i =
     (if 0 \<le> i \<and> nat i < length cs then Inr (cs[nat i := cs ! nat i + 1]) else Inl Undefined)"

definition internal_put ::
  "peer \<Rightarrow> int \<Rightarrow> addr \<Rightarrow> addr \<Rightarrow> size_t \<Rightarrow> int \<Rightarrow> int \<Rightarrow> error + peer \<times> envelope list" where
  "internal_put p processor val variable sz offset count =
     (if processor = pid p then
        (case put_to_self p val variable sz offset count of
           Inl e \<Rightarrow> Inl e
         | Inr p' \<Rightarrow> Inr (p', []))
      else
        (case left_at (locations p) variable of
           Inl e \<Rightarrow> Inl e
         | Inr vid \<Rightarrow>
             let header = \<lparr>var_id = vid, data_offset = of_int offset * sz\<rparr>;
                 n = unat (sz * of_int count);
                 payload = read_bytes (mem p) val n
             in (case mpi_send p (sizeof_put_header + n) processor (PUT header payload) of
                   Inl e \<Rightarrow> Inl e
                 | Inr env \<Rightarrow>
                     (case incr (put_counts p) processor of
                        Inl e \<Rightarrow> Inl e
                      | Inr cs \<Rightarrow> Inr (p\<lparr>put_counts := cs\<rparr>, [env])))))"

definition register_location :: "peer \<Rightarrow> addr \<Rightarrow> size_t \<Rightarrow> peer \<times> int" where
  "register_location p location sz =
     (p\<lparr>locations := bimap_insert (locations p) (location, vars p),
        vars := vars p + 1\<rparr>,
      vars p)"


definition internal_get ::
  "peer \<Rightarrow> int \<Rightarrow> addr \<Rightarrow> addr \<Rightarrow> size_t \<Rightarrow> int \<Rightarrow> int \<Rightarrow> error + peer \<times> envelope list" where
  "internal_get p processor variable target sz offset count =
     (if processor = pid p then
        (case get_from_self p variable target sz offset count of
           Inl e \<Rightarrow> Inl e
         | Inr p' \<Rightarrow> Inr (p', []))
      else
        (case left_at (locations p) variable of
           Inl e \<Rightarrow> Inl e
         | Inr vid \<Rightarrow>
             let header = \<lparr>g_var_id = vid, g_data_offset = of_int offset * sz,
                           g_count = count, g_size = sz, g_target = target\<rparr>
             in (case mpi_send p sizeof_get_header processor (GET header) of
                   Inl e \<Rightarrow> Inl e
                 | Inr env \<Rightarrow>
                     (case incr (get_counts p) processor of
                        Inl e \<Rightarrow> Inl e
                      | Inr cs \<Rightarrow>
                          Inr (p\<lparr>get_counts := cs, local_gets := local_gets p + 1\<rparr>,
                               [env])))))"

text \<open>\<open>internal_send\<close> is a virtual member function with an empty body.\<close>

definition internal_send ::
  "peer \<Rightarrow> int \<Rightarrow> addr \<Rightarrow> addr \<Rightarrow> size_t \<Rightarrow> size_t \<Rightarrow> peer \<times> envelope list" where
  "internal_send p processor tag content tag_size content_size = (p, [])"

section \<open>The superstep barrier\<close>

subsection \<open>The three receive loops of \<open>sync\<close>\<close>

text \<open>
  One pass of the first loop: \<open>MPI_Probe\<close> and \<open>MPI_Recv\<close> take the oldest frame with
  the put tag (the probe never returns when there is none), \<open>locations_.right.at\<close>
  resolves the id, \<open>memcpy\<close> writes the bytes after the header, whose number is the
  received length minus the header's size, and the counter goes down by one.
\<close>

definition recv_put :: "peer \<Rightarrow> error + peer" where
  "recv_put p =
     (case rx_put p of
        [] \<Rightarrow> Inl Blocked
      | (header, payload) # rest \<Rightarrow>
          (case right_at (locations p) (var_id header) of
             Inl e \<Rightarrow> Inl e
           | Inr base \<Rightarrow>
               Inr (p\<lparr>mem := write_bytes (mem p) (base + data_offset header) payload,
                      rx_put := rest,
                      remote_puts := remote_puts p - 1,
                      history := history p @ [Recv_put header payload]\<rparr>)))"

lemma recv_put_counter: "recv_put p = Inr p' \<Longrightarrow> remote_puts p' = remote_puts p - 1"
  by (auto simp: recv_put_def split: list.splits sum.splits)

function drain_puts :: "peer \<Rightarrow> error + peer" where
  "drain_puts p =
     (if 0 < remote_puts p then
        (case recv_put p of Inl e \<Rightarrow> Inl e | Inr p' \<Rightarrow> drain_puts p')
      else Inr p)"
  by pat_completeness auto
termination
  by (relation "measure (\<lambda>p. nat (remote_puts p))") (auto dest: recv_put_counter)

text \<open>
  One pass of the second loop: the request is received, the answer is built from the
  registered region and sent to the requester (\<open>status.MPI_SOURCE\<close>).
\<close>

definition answer_get :: "peer \<Rightarrow> error + peer \<times> envelope" where
  "answer_get p =
     (case rx_get p of
        [] \<Rightarrow> Inl Blocked
      | (source, header) # rest \<Rightarrow>
          let n = g_size header * of_int (g_count header);
              out_header = \<lparr>r_target = g_target header, r_data_size = n\<rparr>
          in (case right_at (locations p) (g_var_id header) of
                Inl e \<Rightarrow> Inl e
              | Inr base \<Rightarrow>
                  let payload = read_bytes (mem p) (base + g_data_offset header) (unat n)
                  in (case mpi_send p (sizeof_get_response_header + unat n) source
                             (GET_RESPONSE out_header payload) of
                        Inl e \<Rightarrow> Inl e
                      | Inr env \<Rightarrow>
                          Inr (p\<lparr>rx_get := rest,
                                 remote_gets := remote_gets p - 1,
                                 history := history p @
                                   [Recv_get source header,
                                    Send_get_response source out_header payload]\<rparr>,
                               env))))"

lemma answer_get_counter:
  "answer_get p = Inr (p', env) \<Longrightarrow> remote_gets p' = remote_gets p - 1"
  by (auto simp: answer_get_def Let_def split: list.splits sum.splits)

function drain_gets :: "peer \<Rightarrow> error + peer \<times> envelope list" where
  "drain_gets p =
     (if 0 < remote_gets p then
        (case answer_get p of
           Inl e \<Rightarrow> Inl e
         | Inr (p', env) \<Rightarrow>
             (case drain_gets p' of
                Inl e \<Rightarrow> Inl e
              | Inr (p'', out) \<Rightarrow> Inr (p'', env # out)))
      else Inr (p, []))"
  by pat_completeness auto
termination
  by (relation "measure (\<lambda>p. nat (remote_gets p))") (auto dest: answer_get_counter)

text \<open>
  One pass of the third loop: \<open>data_size\<close> bytes after the header go to the address in
  the header's \<open>target\<close> field. Reading more bytes than the frame has is undefined.
\<close>

definition recv_get_response :: "peer \<Rightarrow> error + peer" where
  "recv_get_response p =
     (case rx_get_response p of
        [] \<Rightarrow> Inl Blocked
      | (header, payload) # rest \<Rightarrow>
          if length payload < unat (r_data_size header) then Inl Undefined
          else
            Inr (p\<lparr>mem := write_bytes (mem p) (r_target header)
                             (take (unat (r_data_size header)) payload),
                   rx_get_response := rest,
                   local_gets := local_gets p - 1,
                   history := history p @ [Recv_get_response header payload]\<rparr>))"

lemma recv_get_response_counter:
  "recv_get_response p = Inr p' \<Longrightarrow> local_gets p' = local_gets p - 1"
  by (auto simp: recv_get_response_def split: list.splits prod.splits if_splits)

function drain_get_responses :: "peer \<Rightarrow> error + peer" where
  "drain_get_responses p =
     (if 0 < local_gets p then
        (case recv_get_response p of Inl e \<Rightarrow> Inl e | Inr p' \<Rightarrow> drain_get_responses p')
      else Inr p)"
  by pat_completeness auto
termination
  by (relation "measure (\<lambda>p. nat (local_gets p))") (auto dest: recv_get_response_counter)

subsection \<open>\<open>sync\<close> of one process\<close>

text \<open>
  \<open>sync\<close> up to its second barrier. The two sums are what \<open>MPI_Reduce_scatter\<close> hands to
  this process; the result carries the answers sent on the way.
\<close>

definition sync_front :: "int \<Rightarrow> int \<Rightarrow> peer \<Rightarrow> error + peer \<times> envelope list" where
  "sync_front sum_puts sum_gets p =
     (let p1 = p\<lparr>history := history p @ [Barrier]\<rparr>;
          p2 = p1\<lparr>remote_puts := sum_puts,
                  history := history p1 @ [Reduce_scatter_puts sum_puts]\<rparr>;
          p3 = p2\<lparr>remote_gets := sum_gets,
                  history := history p2 @ [Reduce_scatter_gets sum_gets]\<rparr>
      in (case drain_puts p3 of
            Inl e \<Rightarrow> Inl e
          | Inr p4 \<Rightarrow>
              (case drain_gets p4 of
                 Inl e \<Rightarrow> Inl e
               | Inr (p5, out) \<Rightarrow> Inr (p5\<lparr>history := history p5 @ [Barrier]\<rparr>, out))))"

text \<open>\<open>sync\<close> after its second barrier: the answers, the reset and the last barrier.\<close>

definition sync_back :: "peer \<Rightarrow> error + peer" where
  "sync_back p =
     (case drain_get_responses p of
        Inl e \<Rightarrow> Inl e
      | Inr p1 \<Rightarrow>
          Inr (p1\<lparr>put_counts := replicate (length (put_counts p1)) 0,
                  get_counts := replicate (length (get_counts p1)) 0,
                  local_gets := 0,
                  remote_puts := 0,
                  remote_gets := 0,
                  history := history p1 @ [Reset_counters, Barrier]\<rparr>))"

section \<open>The group of processes\<close>

text \<open>
  The group is the list of its processes, rank \<open>i\<close> at position \<open>i\<close>. A frame that was
  sent waits in the queue of its destination for the tag it was sent with.
\<close>

type_synonym system = "peer list"

definition enqueue :: "envelope \<Rightarrow> peer \<Rightarrow> peer" where
  "enqueue e p =
     (case env_frame e of
        PUT h b \<Rightarrow> p\<lparr>rx_put := rx_put p @ [(h, b)]\<rparr>
      | GET h \<Rightarrow> p\<lparr>rx_get := rx_get p @ [(env_src e, h)]\<rparr>
      | GET_RESPONSE h b \<Rightarrow> p\<lparr>rx_get_response := rx_get_response p @ [(h, b)]\<rparr>)"

definition deliver1 :: "envelope \<Rightarrow> system \<Rightarrow> system" where
  "deliver1 e sys =
     (if 0 \<le> env_dst e \<and> nat (env_dst e) < length sys
      then sys[nat (env_dst e) := enqueue e (sys ! nat (env_dst e))]
      else sys)"

definition deliver :: "envelope list \<Rightarrow> system \<Rightarrow> system" where
  "deliver es sys = fold deliver1 es sys"

text \<open>Process \<open>i\<close> of the group calls an operation; what it sends is delivered.\<close>

definition at_peer ::
  "nat \<Rightarrow> (peer \<Rightarrow> error + peer \<times> envelope list) \<Rightarrow> system \<Rightarrow> error + system" where
  "at_peer i f sys =
     (if i < length sys then
        (case f (sys ! i) of
           Inl e \<Rightarrow> Inl e
         | Inr (p', out) \<Rightarrow> Inr (deliver out (sys[i := p'])))
      else Inl Undefined)"

text \<open>
  \<open>MPI_Reduce_scatter\<close> with \<open>MPI_SUM\<close> and one element per process: process \<open>i\<close>
  receives the sum of the \<open>i\<close>-th elements of all send buffers.
\<close>

definition reduce_scatter_sum :: "int list list \<Rightarrow> nat \<Rightarrow> int" where
  "reduce_scatter_sum bufs i = sum_list (map (\<lambda>b. b ! i) bufs)"

fun all_ok :: "(error + 'a) list \<Rightarrow> error + 'a list" where
  "all_ok [] = Inr []"
| "all_ok (x # xs) =
     (case x of
        Inl e \<Rightarrow> Inl e
      | Inr a \<Rightarrow> (case all_ok xs of Inl e \<Rightarrow> Inl e | Inr as \<Rightarrow> Inr (a # as)))"

text \<open>
  All processes call \<open>sync\<close>. Between two barriers a process reads only its own queues
  and memory, so the processes are run one after the other; the answers to the requests
  are in the queues of the requesters when the second barrier is passed. A send buffer
  of the reduction shorter than the group is read past its end.
\<close>

definition sync_all_front :: "system \<Rightarrow> error + system" where
  "sync_all_front sys =
     (if \<exists>p \<in> set sys. length (put_counts p) \<noteq> length sys \<or> length (get_counts p) \<noteq> length sys
      then Inl Undefined
      else
        (case all_ok (map (\<lambda>i. sync_front (reduce_scatter_sum (map put_counts sys) i)
                                          (reduce_scatter_sum (map get_counts sys) i)
                                          (sys ! i))
                          [0..<length sys]) of
           Inl e \<Rightarrow> Inl e
         | Inr rs \<Rightarrow> Inr (deliver (concat (map snd rs)) (map fst rs))))"

definition sync_all_back :: "system \<Rightarrow> error + system" where
  "sync_all_back sys = all_ok (map sync_back sys)"

definition sync_all :: "system \<Rightarrow> error + system" where
  "sync_all sys = (case sync_all_front sys of Inl e \<Rightarrow> Inl e | Inr mid \<Rightarrow> sync_all_back mid)"

section \<open>A concrete group\<close>

definition zero_memory :: memory where
  "zero_memory = (\<lambda>x. 0)"

definition example_peer :: peer where
  "example_peer = world_provider 0 2 zero_memory"

definition example_memory :: memory where
  "example_memory = write_bytes (write_bytes zero_memory 8192 [1, 2, 3, 4]) 4096 [5, 6, 7, 8]"

definition peer0 :: peer where
  "peer0 = fst (register_location (world_provider 0 2 example_memory) 4096 4)"

definition peer1 :: peer where
  "peer1 = fst (register_location (world_provider 1 2 example_memory) 4096 4)"

definition put_envelope :: envelope where
  "put_envelope =
     \<lparr>env_src = 0, env_dst = 1,
      env_frame = PUT \<lparr>var_id = 0, data_offset = 0\<rparr> [1, 2, 3, 4]\<rparr>"

definition get_envelope :: "addr \<Rightarrow> envelope" where
  "get_envelope target =
     \<lparr>env_src = 0, env_dst = 1,
      env_frame = GET \<lparr>g_var_id = 0, g_data_offset = 0, g_count = 1, g_size = 4,
                       g_target = target\<rparr>\<rparr>"

definition get_response_envelope :: envelope where
  "get_response_envelope =
     \<lparr>env_src = 1, env_dst = 0,
      env_frame = GET_RESPONSE \<lparr>r_target = 12288, r_data_size = 4\<rparr> [5, 6, 7, 8]\<rparr>"

definition requesting_peer0 :: peer where
  "requesting_peer0 = peer0\<lparr>get_counts := [0, 1], local_gets := 1\<rparr>"

definition stray_response0 :: envelope where
  "stray_response0 =
     \<lparr>env_src = 1, env_dst = 0,
      env_frame = GET_RESPONSE \<lparr>r_target = 16384, r_data_size = 1\<rparr> [7]\<rparr>"

section \<open>The history of a superstep\<close>

text \<open>
  The events that a list of received frames leaves in the history, and the answers a
  process sends for a list of requests.
\<close>

definition answer_header :: "get_header \<Rightarrow> get_response_header" where
  "answer_header h = \<lparr>r_target = g_target h, r_data_size = g_size h * of_int (g_count h)\<rparr>"

definition put_events :: "(put_header \<times> byte list) list \<Rightarrow> event list" where
  "put_events fs = map (\<lambda>(h, b). Recv_put h b) fs"

definition get_events :: "(int \<times> get_header \<times> byte list) list \<Rightarrow> event list" where
  "get_events gs =
     concat (map (\<lambda>(src, h, b). [Recv_get src h, Send_get_response src (answer_header h) b]) gs)"

definition answer_events :: "(get_response_header \<times> byte list) list \<Rightarrow> event list" where
  "answer_events fs = map (\<lambda>(h, b). Recv_get_response h b) fs"

definition answers_sent :: "int \<Rightarrow> (int \<times> get_header \<times> byte list) list \<Rightarrow> envelope list" where
  "answers_sent me gs =
     map (\<lambda>(src, h, b). \<lparr>env_src = me, env_dst = src,
                            env_frame = GET_RESPONSE (answer_header h) b\<rparr>) gs"

definition is_answer :: "envelope \<Rightarrow> bool" where
  "is_answer e = (case env_frame e of GET_RESPONSE h b \<Rightarrow> True | _ \<Rightarrow> False)"

definition quiet :: "nat \<Rightarrow> peer \<Rightarrow> bool" where
  "quiet n p \<longleftrightarrow>
     put_counts p = replicate n 0 \<and> get_counts p = replicate n 0 \<and>
     local_gets p = 0 \<and> remote_puts p = 0 \<and> remote_gets p = 0"


section \<open>Runs of the concrete group\<close>

definition system0 :: system where
  "system0 = [peer0, peer1]"

definition system1 :: system where
  "system1 = [peer0\<lparr>put_counts := [0, 1]\<rparr>, enqueue put_envelope peer1]"

definition system2 :: system where
  "system2 =
     [peer0\<lparr>put_counts := [0, 1], get_counts := [0, 1], local_gets := 1\<rparr>,
      enqueue (get_envelope 12288) (enqueue put_envelope peer1)]"

section \<open>The operations of a superstep\<close>







text \<open>
  Ranks are positions and every counter vector has one element per process; the put frames
  queued for a process are as many as the put counters of the group say.
\<close>

definition wf_group :: "system \<Rightarrow> bool" where
  "wf_group sys \<longleftrightarrow>
     (\<forall>i < length sys. pid (sys ! i) = int i \<and> length (put_counts (sys ! i)) = length sys)"

definition puts_agree :: "system \<Rightarrow> bool" where
  "puts_agree sys \<longleftrightarrow>
     (\<forall>d < length sys.
        int (length (rx_put (sys ! d))) = sum_list (map (\<lambda>p. put_counts p ! d) sys))"


section \<open>Distributed variables\<close>

text \<open>
  \<open>var<T>\<close> of \<open>variable.hpp\<close> holds a \<open>std::unique_ptr<var_impl>\<close>; the \<open>var_impl\<close> holds
  the value and the id its constructor got from the world, and its destructor
  unregisters that id.

  Modelled from the spec: \<open>bulk::world\<close> (\<open>bulk/world.hpp\<close> is not among the sources).
  Its \<open>register_location_\<close> allocates the next id; the model records, in order, the calls
  that variables make to it.
\<close>

datatype world_call =
    World_register addr size_t int
  | World_unregister int
  | World_barrier

record var_impl =
  value_at :: addr
  impl_id :: int

text \<open>
  The variables that are alive, each with its \<open>impl_\<close> pointer (\<open>None\<close> is the null
  pointer), next to the state of the world.
\<close>

record var_state =
  objects :: "nat \<Rightarrow> var_impl option option"
  calls :: "world_call list"
  next_id :: int

definition var_impl_construct :: "addr \<Rightarrow> size_t \<Rightarrow> var_state \<Rightarrow> var_impl \<times> var_state" where
  "var_impl_construct a sz st =
     (\<lparr>value_at = a, impl_id = next_id st\<rparr>,
      st\<lparr>calls := calls st @ [World_register a sz (next_id st)], next_id := next_id st + 1\<rparr>)"

definition var_impl_destroy :: "var_impl \<Rightarrow> var_state \<Rightarrow> var_state" where
  "var_impl_destroy i st = st\<lparr>calls := calls st @ [World_unregister (impl_id i)]\<rparr>"

text \<open>Resetting a \<open>unique_ptr\<close> destroys what it owned, if it owned something.\<close>

definition unique_ptr_reset :: "var_impl option \<Rightarrow> var_state \<Rightarrow> var_state" where
  "unique_ptr_reset old st = (case old of None \<Rightarrow> st | Some i \<Rightarrow> var_impl_destroy i st)"

text \<open>\<open>var(bulk::world&)\<close>: the new \<open>var_impl\<close> lives at an address the allocator chose.\<close>

definition var_construct :: "nat \<Rightarrow> addr \<Rightarrow> size_t \<Rightarrow> var_state \<Rightarrow> error + var_state" where
  "var_construct v a sz st =
     (case objects st v of
        Some x \<Rightarrow> Inl Undefined
      | None \<Rightarrow>
          (case var_impl_construct a sz st of
             (i, st') \<Rightarrow> Inr (st'\<lparr>objects := (objects st')(v := Some (Some i))\<rparr>)))"

text \<open>
  \<open>~var()\<close>: the barrier when \<open>impl_\<close> is not null, then the destruction of the member
  \<open>impl_\<close>.
\<close>

definition var_destroy :: "nat \<Rightarrow> var_state \<Rightarrow> error + var_state" where
  "var_destroy v st =
     (case objects st v of
        None \<Rightarrow> Inl Undefined
      | Some impl \<Rightarrow>
          let st1 = (if impl \<noteq> None then st\<lparr>calls := calls st @ [World_barrier]\<rparr> else st);
              st2 = unique_ptr_reset impl st1
          in Inr (st2\<lparr>objects := (objects st2)(v := None)\<rparr>))"

text \<open>
  \<open>impl_ = std::move(other.impl_)\<close>, the body of the move constructor and of the move
  assignment: \<open>other.impl_\<close> is released, then \<open>impl_\<close> is reset to what was released.
\<close>

definition move_impl :: "nat \<Rightarrow> nat \<Rightarrow> var_state \<Rightarrow> error + var_state" where
  "move_impl v other st =
     (case objects st other of
        None \<Rightarrow> Inl Undefined
      | Some released \<Rightarrow>
          let st1 = st\<lparr>objects := (objects st)(other := Some None)\<rparr>
          in (case objects st1 v of
                None \<Rightarrow> Inl Undefined
              | Some old \<Rightarrow>
                  Inr (unique_ptr_reset old (st1\<lparr>objects := (objects st1)(v := Some released)\<rparr>))))"

text \<open>\<open>var(var<T>&& other)\<close>: the new variable starts with a null \<open>impl_\<close>.\<close>

definition var_move_construct :: "nat \<Rightarrow> nat \<Rightarrow> var_state \<Rightarrow> error + var_state" where
  "var_move_construct v other st =
     (case objects st v of
        Some x \<Rightarrow> Inl Undefined
      | None \<Rightarrow> move_impl v other (st\<lparr>objects := (objects st)(v := Some None)\<rparr>))"

definition var_move_assign :: "nat \<Rightarrow> nat \<Rightarrow> var_state \<Rightarrow> error + var_state" where
  "var_move_assign v other st = move_impl v other st"

definition no_vars :: var_state where
  "no_vars = \<lparr>objects = (\<lambda>v. None), calls = [], next_id = 0\<rparr>"

definition one_var :: var_state where
  "one_var = \<lparr>objects = (\<lambda>v. if v = 0 then Some (Some \<lparr>value_at = 4096, impl_id = 0\<rparr>) else None),
               calls = [World_register 4096 4 0], next_id = 1\<rparr>"

definition two_vars :: var_state where
  "two_vars =
     \<lparr>objects = (\<lambda>v. if v = 0 then Some (Some \<lparr>value_at = 4096, impl_id = 0\<rparr>)
                     else if v = 1 then Some (Some \<lparr>value_at = 8192, impl_id = 1\<rparr>) else None),
      calls = [World_register 4096 4 0, World_register 8192 4 1], next_id = 2\<rparr>"

section \<open>Properties\<close>

subsection \<open>Memory and the location map\<close>

lemma length_read_bytes [simp]: "length (read_bytes m a n) = n"
  by (simp add: read_bytes_def)

lemma nth_read_bytes [simp]: "i < n \<Longrightarrow> read_bytes m a n ! i = m (a + of_nat i)"
  by (simp add: read_bytes_def)

lemma unat_of_nat_addr: "i < 2 ^ 64 \<Longrightarrow> unat (of_nat i :: addr) = i"
  by (simp add: unat_of_nat)

lemma write_bytes_inside:
  assumes "i < length bs" and "length bs \<le> 2 ^ 64"
  shows "write_bytes m a bs (a + of_nat i) = bs ! i"
proof -
  have "i < 2 ^ 64" using assms by simp
  then have "unat (of_nat i :: addr) = i" by (rule unat_of_nat_addr)
  then show ?thesis using assms by (simp add: write_bytes_def)
qed

lemma write_bytes_outside:
  "length bs \<le> unat (x - a) \<Longrightarrow> write_bytes m a bs x = m x"
  by (simp add: write_bytes_def)

lemma unat_addr_bound: "unat (w :: size_t) < 2 ^ 64"
  using unsigned_less [of w, where 'a = nat] by simp

lemma memcpy_copies:
  assumes "\<not> overlap dst src n" and "n \<le> 2 ^ 64"
  shows "\<exists>p'. memcpy p dst src n = Inr p' \<and> p' = p\<lparr>mem := mem p'\<rparr>
           \<and> (\<forall>i < n. mem p' (dst + of_nat i) = mem p (src + of_nat i))
           \<and> (\<forall>x. n \<le> unat (x - dst) \<longrightarrow> mem p' x = mem p x)"
  using assms by (simp add: memcpy_def write_bytes_inside write_bytes_outside)

text \<open>
  C9: a put or a get whose destination is the calling process is an immediate \<open>memcpy\<close>
  of \<open>count * size\<close> bytes between the caller's buffer and \<open>variable + size * offset\<close>:
  no frame is sent, no field of the process other than its memory changes (so no counter
  is incremented), and the bytes are in place when the call returns.
\<close>

theorem self_put_get_immediate:
  assumes "\<not> overlap (variable + sz * of_int offset) buf (unat (of_int count * sz))"
  shows "(\<exists>p'. internal_put p (pid p) buf variable sz offset count = Inr (p', [])
            \<and> p' = p\<lparr>mem := mem p'\<rparr>
            \<and> (\<forall>i < unat (of_int count * sz).
                  mem p' (variable + sz * of_int offset + of_nat i) = mem p (buf + of_nat i))
            \<and> (\<forall>x. unat (of_int count * sz) \<le> unat (x - (variable + sz * of_int offset))
                  \<longrightarrow> mem p' x = mem p x))
       \<and> (\<exists>p'. internal_get p (pid p) variable buf sz offset count = Inr (p', [])
            \<and> p' = p\<lparr>mem := mem p'\<rparr>
            \<and> (\<forall>i < unat (of_int count * sz).
                  mem p' (buf + of_nat i) = mem p (variable + sz * of_int offset + of_nat i))
            \<and> (\<forall>x. unat (of_int count * sz) \<le> unat (x - buf) \<longrightarrow> mem p' x = mem p x))"
proof -
  have n: "unat (of_int count * sz) \<le> 2 ^ 64"
    using unat_addr_bound [of "of_int count * sz"] by simp
  have rev: "\<not> overlap buf (variable + sz * of_int offset) (unat (of_int count * sz))"
    using assms by (auto simp: overlap_def)
  have put: "\<exists>p'. internal_put p (pid p) buf variable sz offset count = Inr (p', [])
            \<and> p' = p\<lparr>mem := mem p'\<rparr>
            \<and> (\<forall>i < unat (of_int count * sz).
                  mem p' (variable + sz * of_int offset + of_nat i) = mem p (buf + of_nat i))
            \<and> (\<forall>x. unat (of_int count * sz) \<le> unat (x - (variable + sz * of_int offset))
                  \<longrightarrow> mem p' x = mem p x)"
    using memcpy_copies [OF assms n, of p] by (auto simp: internal_put_def put_to_self_def)
  have get: "\<exists>p'. internal_get p (pid p) variable buf sz offset count = Inr (p', [])
            \<and> p' = p\<lparr>mem := mem p'\<rparr>
            \<and> (\<forall>i < unat (of_int count * sz).
                  mem p' (buf + of_nat i) = mem p (variable + sz * of_int offset + of_nat i))
            \<and> (\<forall>x. unat (of_int count * sz) \<le> unat (x - buf) \<longrightarrow> mem p' x = mem p x)"
    using memcpy_copies [OF rev n, of p] by (auto simp: internal_get_def get_from_self_def)
  from put get show ?thesis by (rule conjI)
qed

theorem self_put_get_immediate_witness:
  "\<exists>p'. internal_put example_peer (pid example_peer) 8192 4096 4 0 1 = Inr (p', [])
        \<and> mem p' 4097 = mem example_peer 8193"
proof -
  have h: "\<not> overlap (4096 + 4 * of_int 0) 8192 (unat (of_int 1 * (4 :: size_t)))"
    by (simp add: overlap_def)
  from self_put_get_immediate [OF h, of example_peer]
  obtain p' where put: "internal_put example_peer (pid example_peer) 8192 4096 4 0 1 = Inr (p', [])"
    and bytes: "\<forall>i < unat (of_int 1 * (4 :: size_t)).
                  mem p' (4096 + 4 * of_int 0 + of_nat i) = mem example_peer (8192 + of_nat i)"
    by blast
  have "(1::nat) < unat (of_int 1 * (4 :: size_t))" by simp
  with bytes have "mem p' (4096 + 4 * of_int 0 + of_nat 1) = mem example_peer (8192 + of_nat 1)"
    by blast
  then have "mem p' 4097 = mem example_peer 8193" by simp
  with put show ?thesis by blast
qed

lemma overlap_sym: "overlap d s n = overlap s d n"
  by (auto simp: overlap_def)

lemma map_of_absent: "k \<notin> fst ` set xs \<Longrightarrow> map_of xs k = None"
  by (simp add: map_of_eq_None_iff)

lemma map_of_swapped_absent:
  "i \<notin> snd ` set b \<Longrightarrow> map_of (map (\<lambda>(a, j). (j, a)) b) i = None"
  by (rule map_of_absent) (force simp: image_iff)

lemma left_at_insert_fresh:
  "a \<notin> fst ` set b \<Longrightarrow> i \<notin> snd ` set b \<Longrightarrow> left_at (bimap_insert b (a, i)) a = Inr i"
  by (simp add: left_at_def bimap_insert_def map_add_def map_of_absent)

lemma right_at_insert_fresh:
  "a \<notin> fst ` set b \<Longrightarrow> i \<notin> snd ` set b \<Longrightarrow> right_at (bimap_insert b (a, i)) i = Inr a"
  by (simp add: right_at_def bimap_insert_def map_add_def map_of_swapped_absent)

lemma left_at_insert_other:
  "a' \<noteq> a \<Longrightarrow> left_at (bimap_insert b (a, i)) a' = left_at b a'"
  by (simp add: left_at_def bimap_insert_def map_add_def split: option.splits)

lemma right_at_unbound:
  "i \<notin> snd ` set b \<Longrightarrow> right_at b i = Inl OutOfRange"
  by (simp add: right_at_def map_of_swapped_absent)

text \<open>
  C7, as amended: \<open>register_location_\<close> returns the next id and advances the id counter in
  every case. For a location that is not registered it inserts both directions of the
  mapping and leaves the other entries alone. For a location that is already registered
  it does not fail: the mapping stays as it was and the returned id is bound to nothing.
\<close>

theorem register_location_effect:
  assumes "\<forall>e \<in> set (locations p). snd e < vars p"
    and "register_location p location sz = (p', i)"
  shows "i = vars p \<and> vars p' = vars p + 1
         \<and> (\<forall>e \<in> set (locations p'). snd e < vars p')
         \<and> (location \<notin> fst ` set (locations p) \<longrightarrow>
               left_at (locations p') location = Inr i
               \<and> right_at (locations p') i = Inr location
               \<and> (\<forall>a. a \<noteq> location \<longrightarrow> left_at (locations p') a = left_at (locations p) a))
         \<and> (location \<in> fst ` set (locations p) \<longrightarrow>
               locations p' = locations p \<and> right_at (locations p') i = Inl OutOfRange)"
proof -
  have fresh: "vars p \<notin> snd ` set (locations p)"
    using assms(1) by auto
  have i: "i = vars p" and p': "p' = p\<lparr>locations := bimap_insert (locations p) (location, vars p),
                                       vars := vars p + 1\<rparr>"
    using assms(2) by (auto simp: register_location_def)
  have below: "\<forall>e \<in> set (locations p'). snd e < vars p'"
    using assms(1) by (auto simp: p' bimap_insert_def)
  have new: "location \<notin> fst ` set (locations p) \<longrightarrow>
               left_at (locations p') location = Inr i
               \<and> right_at (locations p') i = Inr location
               \<and> (\<forall>a. a \<noteq> location \<longrightarrow> left_at (locations p') a = left_at (locations p) a)"
    using fresh by (simp add: p' i left_at_insert_fresh right_at_insert_fresh left_at_insert_other)
  have old: "location \<in> fst ` set (locations p) \<longrightarrow>
               locations p' = locations p \<and> right_at (locations p') i = Inl OutOfRange"
    using fresh by (simp add: p' i bimap_insert_def right_at_unbound)
  have next_id: "vars p' = vars p + 1" by (simp add: p')
  from i next_id below new old show ?thesis by blast
qed


theorem register_location_effect_witness:
  "snd (register_location example_peer 4096 4) = 0
   \<and> left_at (locations (fst (register_location example_peer 4096 4))) 4096 = Inr 0
   \<and> right_at (locations (fst (register_location example_peer 4096 4))) 0 = Inr 4096"
proof -
  have h: "\<forall>e \<in> set (locations example_peer). snd e < vars example_peer"
    by (simp add: example_peer_def world_provider_def)
  have v: "vars example_peer = 0"
    by (simp add: example_peer_def world_provider_def)
  have n: "4096 \<notin> fst ` set (locations example_peer)"
    by (simp add: example_peer_def world_provider_def)
  have "register_location example_peer 4096 4 =
          (fst (register_location example_peer 4096 4), snd (register_location example_peer 4096 4))"
    by simp
  note r = register_location_effect [OF h this]
  have i: "snd (register_location example_peer 4096 4) = 0"
    using r v by simp
  have l: "left_at (locations (fst (register_location example_peer 4096 4))) 4096 =
             Inr (snd (register_location example_peer 4096 4))"
    using r n by blast
  have "right_at (locations (fst (register_location example_peer 4096 4)))
             (snd (register_location example_peer 4096 4)) = Inr 4096"
    using r n by blast
  with i l show ?thesis by simp
qed

theorem register_twice_counterexample:
  "register_location (fst (register_location example_peer 4096 4)) 4096 4 =
     (fst (register_location example_peer 4096 4)\<lparr>vars := 2\<rparr>, 1)
   \<and> left_at (locations (fst (register_location example_peer 4096 4))) 4096 = Inr 0"
  by (simp add: register_location_def example_peer_def world_provider_def bimap_insert_def
      left_at_def)

subsection \<open>Frames of puts and gets\<close>









lemma recv_get_response_writes:
  assumes "rx_get_response p = (header, payload) # rest"
    and "unat (r_data_size header) \<le> length payload"
  shows "\<exists>p'. recv_get_response p = Inr p'
           \<and> p' = p\<lparr>mem := mem p', rx_get_response := rest, local_gets := local_gets p - 1,
                    history := history p @ [Recv_get_response header payload]\<rparr>
           \<and> (\<forall>i < unat (r_data_size header). mem p' (r_target header + of_nat i) = payload ! i)
           \<and> (\<forall>x. unat (r_data_size header) \<le> unat (x - r_target header) \<longrightarrow> mem p' x = mem p x)"
proof -
  have "unat (r_data_size header) \<le> 2 ^ 64"
    using unat_addr_bound [of "r_data_size header"] by simp
  then have "length (take (unat (r_data_size header)) payload) \<le> 2 ^ 64"
    by simp
  then show ?thesis using assms
    by (simp add: recv_get_response_def write_bytes_inside write_bytes_outside)
qed

text \<open>
  C6, as amended: handling an answer to a get writes the first \<open>data_size\<close> bytes of its
  payload at the address in its \<open>target\<close> field, takes the frame from the queue and
  decrements \<open>local_gets_\<close>, whatever the state of the process: nothing is looked up,
  nothing is removed from a table, and no handle is refused.
\<close>

theorem recv_get_response_effect:
  assumes "rx_get_response p = (header, payload) # rest"
    and "unat (r_data_size header) \<le> length payload"
  shows "\<exists>p'. recv_get_response p = Inr p'
           \<and> p' = p\<lparr>mem := mem p', rx_get_response := rest, local_gets := local_gets p - 1,
                    history := history p @ [Recv_get_response header payload]\<rparr>
           \<and> (\<forall>i < unat (r_data_size header). mem p' (r_target header + of_nat i) = payload ! i)
           \<and> (\<forall>x. unat (r_data_size header) \<le> unat (x - r_target header) \<longrightarrow> mem p' x = mem p x)"
  using assms by (rule recv_get_response_writes)


text \<open>
  C8, as amended: \<open>internal_send_\<close> returns without building or sending a frame and
  without changing the process, so the queues and counters of every process of the group
  are what they were.
\<close>

theorem internal_send_sends_nothing:
  "internal_send p processor tag content tag_size content_size = (p, [])
   \<and> at_peer i (\<lambda>q. Inr (internal_send q processor tag content tag_size content_size)) sys
       = (if i < length sys then Inr sys else Inl Undefined)"
  by (simp add: internal_send_def at_peer_def deliver_def)

subsection \<open>The concrete group\<close>

lemma replicate_two: "replicate 2 x = [x, x]"
  by (simp add: numeral_2_eq_2)

lemmas example_defs = replicate_two
  peer0_def peer1_def world_provider_def register_location_def bimap_insert_def
  left_at_def right_at_def enqueue_def example_memory_def zero_memory_def
  sizeof_put_header_def sizeof_get_header_def sizeof_get_response_header_def
  put_envelope_def get_envelope_def get_response_envelope_def requesting_peer0_def
  stray_response0_def







theorem recv_get_response_effect_witness:
  "\<exists>p'. recv_get_response (enqueue get_response_envelope requesting_peer0) = Inr p'
        \<and> mem p' 12290 = 7 \<and> local_gets p' = 0"
proof -
  have h1: "rx_get_response (enqueue get_response_envelope requesting_peer0) =
              (\<lparr>r_target = 12288, r_data_size = 4\<rparr>, [5, 6, 7, 8]) # []"
    by (simp add: example_defs)
  have h2: "unat (r_data_size \<lparr>r_target = 12288, r_data_size = 4\<rparr>) \<le> length [5, 6, 7, 8 :: byte]"
    by simp
  from recv_get_response_effect [OF h1 h2]
  obtain p' where p': "recv_get_response (enqueue get_response_envelope requesting_peer0) = Inr p'"
    and st: "p' = (enqueue get_response_envelope requesting_peer0)
                    \<lparr>mem := mem p', rx_get_response := [],
                      local_gets := local_gets (enqueue get_response_envelope requesting_peer0) - 1,
                      history := history (enqueue get_response_envelope requesting_peer0) @
                        [Recv_get_response \<lparr>r_target = 12288, r_data_size = 4\<rparr> [5, 6, 7, 8]]\<rparr>"
    and bytes: "\<forall>i < unat (r_data_size \<lparr>r_target = 12288, r_data_size = 4\<rparr>).
                  mem p' (r_target \<lparr>r_target = 12288, r_data_size = 4\<rparr> + of_nat i) =
                  [5, 6, 7, 8] ! i"
    by blast
  have "(2::nat) < unat (r_data_size \<lparr>r_target = 12288, r_data_size = 4\<rparr>)" by simp
  with bytes have "mem p' (r_target \<lparr>r_target = 12288, r_data_size = 4\<rparr> + of_nat 2) =
                   [5, 6, 7, 8] ! 2"
    by blast
  then have m: "mem p' 12290 = 7" by simp
  have "local_gets p' = local_gets (enqueue get_response_envelope requesting_peer0) - 1"
    by (subst st) simp
  then have "local_gets p' = 0" by (simp add: example_defs)
  with p' m show ?thesis by blast
qed

theorem unknown_handle_applied_counterexample:
  "sync_back (enqueue stray_response0 requesting_peer0) =
     Inr (requesting_peer0
            \<lparr>mem := write_bytes (mem requesting_peer0) 16384 [7],
              put_counts := [0, 0], get_counts := [0, 0], local_gets := 0,
              history := [Recv_get_response \<lparr>r_target = 16384, r_data_size = 1\<rparr> [7],
                          Reset_counters, Barrier]\<rparr>)
   \<and> write_bytes (mem requesting_peer0) 16384 [7] 16384 = 7"
  by (simp add: sync_back_def recv_get_response_def example_defs write_bytes_def)

theorem internal_send_counterexample:
  "internal_send peer0 1 4096 8192 4 4 = (peer0, [])"
  by (simp add: internal_send_def)

subsection \<open>The loops and phases of \<open>sync\<close>\<close>

declare drain_puts.simps [simp del] drain_gets.simps [simp del] drain_get_responses.simps [simp del]

lemma all_ok_Inr:
  "all_ok xs = Inr ys \<Longrightarrow> length ys = length xs \<and> (\<forall>i < length xs. xs ! i = Inr (ys ! i))"
proof (induction xs arbitrary: ys)
  case Nil
  then show ?case by simp
next
  case (Cons x xs)
  from Cons.prems obtain a as where x: "x = Inr a" and as: "all_ok xs = Inr as" and ys: "ys = a # as"
    by (auto split: sum.splits)
  from Cons.IH [OF as] show ?case
    by (auto simp: x ys nth_Cons split: nat.splits)
qed


lemma enqueue_fields:
  "\<exists>a b c. enqueue e p = p\<lparr>rx_put := a, rx_get := b, rx_get_response := c\<rparr>"
proof (cases "env_frame e")
  case (PUT h bs)
  then have "enqueue e p = p\<lparr>rx_put := rx_put p @ [(h, bs)], rx_get := rx_get p,
                              rx_get_response := rx_get_response p\<rparr>"
    by (simp add: enqueue_def)
  then show ?thesis by blast
next
  case (GET h)
  then have "enqueue e p = p\<lparr>rx_put := rx_put p, rx_get := rx_get p @ [(env_src e, h)],
                              rx_get_response := rx_get_response p\<rparr>"
    by (simp add: enqueue_def)
  then show ?thesis by blast
next
  case (GET_RESPONSE h bs)
  then have "enqueue e p = p\<lparr>rx_put := rx_put p, rx_get := rx_get p,
                              rx_get_response := rx_get_response p @ [(h, bs)]\<rparr>"
    by (simp add: enqueue_def)
  then show ?thesis by blast
qed

lemma length_deliver1 [simp]: "length (deliver1 e sys) = length sys"
  by (simp add: deliver1_def)

lemma length_deliver [simp]: "length (deliver es sys) = length sys"
  unfolding deliver_def by (induction es arbitrary: sys) simp_all

lemma deliver1_fields:
  assumes "i < length sys"
  shows "\<exists>a b c. deliver1 e sys ! i = (sys ! i)\<lparr>rx_put := a, rx_get := b, rx_get_response := c\<rparr>"
proof (cases "0 \<le> env_dst e \<and> nat (env_dst e) < length sys \<and> nat (env_dst e) = i")
  case True
  then have "deliver1 e sys ! i = enqueue e (sys ! i)"
    by (auto simp: deliver1_def)
  then show ?thesis using enqueue_fields [of e "sys ! i"] by simp
next
  case False
  then have "deliver1 e sys ! i = sys ! i"
    using assms by (auto simp: deliver1_def)
  then have "deliver1 e sys ! i = (sys ! i)\<lparr>rx_put := rx_put (sys ! i), rx_get := rx_get (sys ! i),
                                             rx_get_response := rx_get_response (sys ! i)\<rparr>"
    by simp
  then show ?thesis by blast
qed

lemma deliver_fields:
  "i < length sys \<Longrightarrow>
   \<exists>a b c. deliver es sys ! i = (sys ! i)\<lparr>rx_put := a, rx_get := b, rx_get_response := c\<rparr>"
proof (induction es arbitrary: sys)
  case Nil
  have "deliver [] sys ! i = (sys ! i)\<lparr>rx_put := rx_put (sys ! i), rx_get := rx_get (sys ! i),
                                          rx_get_response := rx_get_response (sys ! i)\<rparr>"
    by (simp add: deliver_def)
  then show ?case by blast
next
  case (Cons e es)
  from deliver1_fields [OF Cons.prems, of e]
  obtain a b c where one: "deliver1 e sys ! i = (sys ! i)\<lparr>rx_put := a, rx_get := b, rx_get_response := c\<rparr>"
    by blast
  have "i < length (deliver1 e sys)" using Cons.prems by simp
  from Cons.IH [OF this]
  obtain a' b' c' where rest: "deliver es (deliver1 e sys) ! i =
      (deliver1 e sys ! i)\<lparr>rx_put := a', rx_get := b', rx_get_response := c'\<rparr>"
    by blast
  have "deliver (e # es) sys = deliver es (deliver1 e sys)"
    by (simp add: deliver_def)
  then have "deliver (e # es) sys ! i = (sys ! i)\<lparr>rx_put := a', rx_get := b', rx_get_response := c'\<rparr>"
    using one rest by simp
  then show ?case by blast
qed

lemma drain_puts_shape:
  "drain_puts p = Inr p' \<Longrightarrow>
   \<exists>m. p' = p\<lparr>mem := m,
               rx_put := drop (nat (remote_puts p)) (rx_put p),
               remote_puts := min 0 (remote_puts p),
               history := history p @
                 map (\<lambda>(h, b). Recv_put h b) (take (nat (remote_puts p)) (rx_put p))\<rparr>
       \<and> nat (remote_puts p) \<le> length (rx_put p)"
proof (induction p rule: drain_puts.induct)
  case (1 p)
  show ?case
  proof (cases "0 < remote_puts p")
    case False
    then have "p' = p" using "1.prems" by (simp add: drain_puts.simps)
    then have "p' = p\<lparr>mem := mem p, rx_put := drop (nat (remote_puts p)) (rx_put p),
                     remote_puts := min 0 (remote_puts p),
                     history := history p @
                       map (\<lambda>(h, b). Recv_put h b) (take (nat (remote_puts p)) (rx_put p))\<rparr>"
      using False by simp
    moreover have "nat (remote_puts p) \<le> length (rx_put p)"
      using False by simp
    ultimately show ?thesis by blast
  next
    case True
    then obtain p1 where p1: "recv_put p = Inr p1" and rest: "drain_puts p1 = Inr p'"
      using "1.prems" by (subst (asm) drain_puts.simps) (auto split: sum.splits)
    from p1 obtain h b fs base where q: "rx_put p = (h, b) # fs"
      and p1_eq: "p1 = p\<lparr>mem := write_bytes (mem p) (base + data_offset h) b, rx_put := fs,
                         remote_puts := remote_puts p - 1,
                         history := history p @ [Recv_put h b]\<rparr>"
      by (auto simp: recv_put_def split: list.splits sum.splits)
    from "1.IH" [OF True p1 rest] obtain m where
      p': "p' = p1\<lparr>mem := m, rx_put := drop (nat (remote_puts p1)) (rx_put p1),
                   remote_puts := min 0 (remote_puts p1),
                   history := history p1 @
                     map (\<lambda>(h, b). Recv_put h b) (take (nat (remote_puts p1)) (rx_put p1))\<rparr>"
      and le: "nat (remote_puts p1) \<le> length (rx_put p1)"
      by blast
    have k: "nat (remote_puts p) = Suc (nat (remote_puts p - 1))"
      using True by simp
    have "p' = p\<lparr>mem := m, rx_put := drop (nat (remote_puts p)) (rx_put p),
                 remote_puts := min 0 (remote_puts p),
                 history := history p @
                   map (\<lambda>(h, b). Recv_put h b) (take (nat (remote_puts p)) (rx_put p))\<rparr>"
      using True by (simp add: p' p1_eq q k)
    moreover have "nat (remote_puts p) \<le> length (rx_put p)"
      using le by (simp add: p1_eq q k)
    ultimately show ?thesis by blast
  qed
qed


lemma drain_get_responses_shape:
  "drain_get_responses p = Inr p' \<Longrightarrow>
   \<exists>m. p' = p\<lparr>mem := m,
               rx_get_response := drop (nat (local_gets p)) (rx_get_response p),
               local_gets := min 0 (local_gets p),
               history := history p @
                 answer_events (take (nat (local_gets p)) (rx_get_response p))\<rparr>
       \<and> nat (local_gets p) \<le> length (rx_get_response p)"
proof (induction p rule: drain_get_responses.induct)
  case (1 p)
  show ?case
  proof (cases "0 < local_gets p")
    case False
    then have "p' = p" using "1.prems" by (simp add: drain_get_responses.simps)
    then have "p' = p\<lparr>mem := mem p,
                     rx_get_response := drop (nat (local_gets p)) (rx_get_response p),
                     local_gets := min 0 (local_gets p),
                     history := history p @
                       answer_events (take (nat (local_gets p)) (rx_get_response p))\<rparr>"
      using False by (simp add: answer_events_def)
    moreover have "nat (local_gets p) \<le> length (rx_get_response p)"
      using False by simp
    ultimately show ?thesis by blast
  next
    case True
    then obtain p1 where p1: "recv_get_response p = Inr p1"
      and rest: "drain_get_responses p1 = Inr p'"
      using "1.prems" by (subst (asm) drain_get_responses.simps) (auto split: sum.splits)
    from p1 obtain h b fs where q: "rx_get_response p = (h, b) # fs"
      and p1_eq: "p1 = p\<lparr>mem := write_bytes (mem p) (r_target h) (take (unat (r_data_size h)) b),
                         rx_get_response := fs,
                         local_gets := local_gets p - 1,
                         history := history p @ [Recv_get_response h b]\<rparr>"
      by (auto simp: recv_get_response_def split: list.splits if_splits)
    from "1.IH" [OF True p1 rest] obtain m where
      p': "p' = p1\<lparr>mem := m,
                   rx_get_response := drop (nat (local_gets p1)) (rx_get_response p1),
                   local_gets := min 0 (local_gets p1),
                   history := history p1 @
                     answer_events (take (nat (local_gets p1)) (rx_get_response p1))\<rparr>"
      and le: "nat (local_gets p1) \<le> length (rx_get_response p1)"
      by blast
    have k: "nat (local_gets p) = Suc (nat (local_gets p - 1))"
      using True by simp
    have "p' = p\<lparr>mem := m,
                 rx_get_response := drop (nat (local_gets p)) (rx_get_response p),
                 local_gets := min 0 (local_gets p),
                 history := history p @
                   answer_events (take (nat (local_gets p)) (rx_get_response p))\<rparr>"
      using True by (simp add: p' p1_eq q k answer_events_def)
    moreover have "nat (local_gets p) \<le> length (rx_get_response p)"
      using le by (simp add: p1_eq q k)
    ultimately show ?thesis by blast
  qed
qed

lemma answer_get_shape:
  "answer_get p = Inr (p1, env) \<Longrightarrow>
   \<exists>src h fs b. rx_get p = (src, h) # fs
     \<and> p1 = p\<lparr>rx_get := fs, remote_gets := remote_gets p - 1,
               history := history p @ get_events [(src, h, b)]\<rparr>
     \<and> [env] = answers_sent (pid p) [(src, h, b)]"
  by (auto simp: answer_get_def Let_def mpi_send_def get_events_def answers_sent_def
      answer_header_def split: list.splits sum.splits if_splits)

lemma drain_gets_shape:
  "drain_gets p = Inr (p', out) \<Longrightarrow>
   \<exists>gs. p' = p\<lparr>rx_get := drop (nat (remote_gets p)) (rx_get p),
                remote_gets := min 0 (remote_gets p),
                history := history p @ get_events gs\<rparr>
       \<and> map (\<lambda>(src, h, b). (src, h)) gs = take (nat (remote_gets p)) (rx_get p)
       \<and> length gs = nat (remote_gets p)
       \<and> out = answers_sent (pid p) gs"
proof (induction p arbitrary: p' out rule: drain_gets.induct)
  case (1 p)
  show ?case
  proof (cases "0 < remote_gets p")
    case False
    then have "p' = p" and "out = []"
      using "1.prems" by (simp_all add: drain_gets.simps)
    then have "p' = p\<lparr>rx_get := drop (nat (remote_gets p)) (rx_get p),
                     remote_gets := min 0 (remote_gets p),
                     history := history p @ get_events []\<rparr>
       \<and> map (\<lambda>(src, h, b). (src, h)) [] = take (nat (remote_gets p)) (rx_get p)
       \<and> length ([] :: (int \<times> get_header \<times> byte list) list) = nat (remote_gets p)
       \<and> out = answers_sent (pid p) []"
      using False by (simp add: get_events_def answers_sent_def)
    then show ?thesis by blast
  next
    case True
    then obtain p1 env out1 where p1: "answer_get p = Inr (p1, env)"
      and rest: "drain_gets p1 = Inr (p', out1)" and out: "out = env # out1"
      using "1.prems" by (subst (asm) drain_gets.simps) (auto split: sum.splits prod.splits)
    from answer_get_shape [OF p1] obtain src h fs b where q: "rx_get p = (src, h) # fs"
      and p1_eq: "p1 = p\<lparr>rx_get := fs, remote_gets := remote_gets p - 1,
                         history := history p @ get_events [(src, h, b)]\<rparr>"
      and env: "[env] = answers_sent (pid p) [(src, h, b)]"
      by blast
    from "1.IH" [OF True p1 refl rest] obtain gs where
      p': "p' = p1\<lparr>rx_get := drop (nat (remote_gets p1)) (rx_get p1),
                   remote_gets := min 0 (remote_gets p1),
                   history := history p1 @ get_events gs\<rparr>"
      and gs: "map (\<lambda>(src, h, b). (src, h)) gs = take (nat (remote_gets p1)) (rx_get p1)"
      and len: "length gs = nat (remote_gets p1)"
      and out1: "out1 = answers_sent (pid p1) gs"
      by blast
    have k: "nat (remote_gets p) = Suc (nat (remote_gets p - 1))"
      using True by simp
    have "p' = p\<lparr>rx_get := drop (nat (remote_gets p)) (rx_get p),
                 remote_gets := min 0 (remote_gets p),
                 history := history p @ get_events ((src, h, b) # gs)\<rparr>"
      using True by (simp add: p' p1_eq q k get_events_def)
    moreover have "map (\<lambda>(src, h, b). (src, h)) ((src, h, b) # gs) =
                     take (nat (remote_gets p)) (rx_get p)"
      using gs by (simp add: p1_eq q k)
    moreover have "length ((src, h, b) # gs) = nat (remote_gets p)"
      using len by (simp add: p1_eq k)
    moreover have "out = answers_sent (pid p) ((src, h, b) # gs)"
      using env out1 by (simp add: out p1_eq answers_sent_def)
    ultimately show ?thesis by blast
  qed
qed


lemma sync_front_shape:
  assumes "sync_front rp rg p = Inr (p', out)"
  shows "\<exists>m gs. p' = p\<lparr>mem := m,
                      rx_put := drop (nat rp) (rx_put p),
                      rx_get := drop (nat rg) (rx_get p),
                      remote_puts := min 0 rp,
                      remote_gets := min 0 rg,
                      history := history p @
                        [Barrier, Reduce_scatter_puts rp, Reduce_scatter_gets rg] @
                        put_events (take (nat rp) (rx_put p)) @ get_events gs @ [Barrier]\<rparr>
           \<and> nat rp \<le> length (rx_put p)
           \<and> map (\<lambda>(src, h, b). (src, h)) gs = take (nat rg) (rx_get p)
           \<and> length gs = nat rg
           \<and> out = answers_sent (pid p) gs"
proof -
  define p3 where "p3 = p\<lparr>remote_puts := rp, remote_gets := rg,
                         history := history p @
                            [Barrier, Reduce_scatter_puts rp, Reduce_scatter_gets rg]\<rparr>"
  from assms obtain p4 p5 where d1: "drain_puts p3 = Inr p4"
    and d2: "drain_gets p4 = Inr (p5, out)"
    and p': "p' = p5\<lparr>history := history p5 @ [Barrier]\<rparr>"
    by (auto simp: sync_front_def Let_def p3_def split: sum.splits prod.splits)
  from drain_puts_shape [OF d1] obtain m where
    p4: "p4 = p3\<lparr>mem := m, rx_put := drop (nat (remote_puts p3)) (rx_put p3),
                  remote_puts := min 0 (remote_puts p3),
                  history := history p3 @
                    map (\<lambda>(h, b). Recv_put h b) (take (nat (remote_puts p3)) (rx_put p3))\<rparr>"
    and le: "nat (remote_puts p3) \<le> length (rx_put p3)"
    by blast
  from drain_gets_shape [OF d2] obtain gs where
    p5: "p5 = p4\<lparr>rx_get := drop (nat (remote_gets p4)) (rx_get p4),
                  remote_gets := min 0 (remote_gets p4),
                  history := history p4 @ get_events gs\<rparr>"
    and gs: "map (\<lambda>(src, h, b). (src, h)) gs = take (nat (remote_gets p4)) (rx_get p4)"
    and len: "length gs = nat (remote_gets p4)"
    and out: "out = answers_sent (pid p4) gs"
    by blast
  have "p' = p\<lparr>mem := m,
               rx_put := drop (nat rp) (rx_put p),
               rx_get := drop (nat rg) (rx_get p),
               remote_puts := min 0 rp,
               remote_gets := min 0 rg,
               history := history p @
                 [Barrier, Reduce_scatter_puts rp, Reduce_scatter_gets rg] @
                 put_events (take (nat rp) (rx_put p)) @ get_events gs @ [Barrier]\<rparr>"
    by (simp add: p' p5 p4 p3_def put_events_def)
  moreover have "nat rp \<le> length (rx_put p)"
    using le by (simp add: p3_def)
  moreover have "map (\<lambda>(src, h, b). (src, h)) gs = take (nat rg) (rx_get p)"
    using gs by (simp add: p4 p3_def)
  moreover have "length gs = nat rg"
    using len by (simp add: p4 p3_def)
  moreover have "out = answers_sent (pid p) gs"
    using out by (simp add: p4 p3_def)
  ultimately show ?thesis by blast
qed

lemma sync_back_shape:
  assumes "sync_back p = Inr p'"
  shows "\<exists>m. p' = p\<lparr>mem := m,
                    rx_get_response := drop (nat (local_gets p)) (rx_get_response p),
                    put_counts := replicate (length (put_counts p)) 0,
                    get_counts := replicate (length (get_counts p)) 0,
                    local_gets := 0, remote_puts := 0, remote_gets := 0,
                    history := history p @
                      answer_events (take (nat (local_gets p)) (rx_get_response p)) @
                      [Reset_counters, Barrier]\<rparr>
           \<and> nat (local_gets p) \<le> length (rx_get_response p)"
proof -
  from assms obtain p1 where d: "drain_get_responses p = Inr p1"
    and p': "p' = p1\<lparr>put_counts := replicate (length (put_counts p1)) 0,
                     get_counts := replicate (length (get_counts p1)) 0,
                     local_gets := 0, remote_puts := 0, remote_gets := 0,
                     history := history p1 @ [Reset_counters, Barrier]\<rparr>"
    by (auto simp: sync_back_def split: sum.splits)
  from drain_get_responses_shape [OF d] obtain m where
    p1: "p1 = p\<lparr>mem := m,
                 rx_get_response := drop (nat (local_gets p)) (rx_get_response p),
                 local_gets := min 0 (local_gets p),
                 history := history p @
                   answer_events (take (nat (local_gets p)) (rx_get_response p))\<rparr>"
    and le: "nat (local_gets p) \<le> length (rx_get_response p)"
    by blast
  have "p' = p\<lparr>mem := m,
               rx_get_response := drop (nat (local_gets p)) (rx_get_response p),
               put_counts := replicate (length (put_counts p)) 0,
               get_counts := replicate (length (get_counts p)) 0,
               local_gets := 0, remote_puts := 0, remote_gets := 0,
               history := history p @
                 answer_events (take (nat (local_gets p)) (rx_get_response p)) @
                 [Reset_counters, Barrier]\<rparr>"
    by (simp add: p' p1)
  with le show ?thesis by blast
qed

lemma reduce_scatter_sum_peers:
  "reduce_scatter_sum (map f sys) i = sum_list (map (\<lambda>p. f p ! i) sys)"
  by (simp add: reduce_scatter_sum_def comp_def)

lemma sync_all_steps:
  assumes "sync_all sys = Inr sys'"
  shows "\<exists>rs mid.
           (\<forall>p \<in> set sys. length (put_counts p) = length sys \<and> length (get_counts p) = length sys)
         \<and> length rs = length sys
         \<and> (\<forall>i < length sys.
               sync_front (sum_list (map (\<lambda>p. put_counts p ! i) sys))
                          (sum_list (map (\<lambda>p. get_counts p ! i) sys)) (sys ! i) = Inr (rs ! i))
         \<and> mid = deliver (concat (map snd rs)) (map fst rs)
         \<and> sync_all_front sys = Inr mid
         \<and> sync_all_back mid = Inr sys'
         \<and> length sys' = length sys
         \<and> (\<forall>i < length sys. sync_back (mid ! i) = Inr (sys' ! i))"
proof -
  from assms obtain mid where front: "sync_all_front sys = Inr mid"
    and rear: "sync_all_back mid = Inr sys'"
    by (auto simp: sync_all_def split: sum.splits)
  from front have lens:
    "\<forall>p \<in> set sys. length (put_counts p) = length sys \<and> length (get_counts p) = length sys"
    by (auto simp: sync_all_front_def split: if_splits)
  from front lens obtain rs where
    rs: "all_ok (map (\<lambda>i. sync_front (reduce_scatter_sum (map put_counts sys) i)
                                      (reduce_scatter_sum (map get_counts sys) i) (sys ! i))
                     [0..<length sys]) = Inr rs"
    and mid: "mid = deliver (concat (map snd rs)) (map fst rs)"
    by (auto simp: sync_all_front_def split: if_splits sum.splits)
  from all_ok_Inr [OF rs] have len_rs: "length rs = length sys"
    and each: "\<forall>i < length sys.
               sync_front (sum_list (map (\<lambda>p. put_counts p ! i) sys))
                          (sum_list (map (\<lambda>p. get_counts p ! i) sys)) (sys ! i) = Inr (rs ! i)"
    by (simp_all add: reduce_scatter_sum_peers)
  have len_mid: "length mid = length sys"
    by (simp add: mid len_rs)
  from rear have "all_ok (map sync_back mid) = Inr sys'"
    by (simp add: sync_all_back_def)
  from all_ok_Inr [OF this] have len': "length sys' = length sys"
    and each': "\<forall>i < length sys. sync_back (mid ! i) = Inr (sys' ! i)"
    by (simp_all add: len_mid)
  from lens len_rs each mid front rear len' each' show ?thesis by blast
qed

lemma sum_list_zeros: "(\<And>x. x \<in> set xs \<Longrightarrow> f x = (0::int)) \<Longrightarrow> sum_list (map f xs) = 0"
  by (induction xs) simp_all




lemma sync_all_leaves_quiet:
  assumes "sync_all sys = Inr sys'"
  shows "\<forall>p \<in> set sys'. quiet (length sys') p"
proof -
  from sync_all_steps [OF assms] obtain rs mid where
    lens: "\<forall>p \<in> set sys. length (put_counts p) = length sys \<and> length (get_counts p) = length sys"
    and len_rs: "length rs = length sys"
    and each: "\<forall>i < length sys.
               sync_front (sum_list (map (\<lambda>p. put_counts p ! i) sys))
                          (sum_list (map (\<lambda>p. get_counts p ! i) sys)) (sys ! i) = Inr (rs ! i)"
    and mid: "mid = deliver (concat (map snd rs)) (map fst rs)"
    and len': "length sys' = length sys"
    and each': "\<forall>i < length sys. sync_back (mid ! i) = Inr (sys' ! i)"
    by blast
  have "quiet (length sys') (sys' ! i)" if i: "i < length sys" for i
  proof -
    from each i have "sync_front (sum_list (map (\<lambda>p. put_counts p ! i) sys))
                          (sum_list (map (\<lambda>p. get_counts p ! i) sys)) (sys ! i)
                      = Inr (fst (rs ! i), snd (rs ! i))"
      by simp
    from sync_front_shape [OF this] have
      pc1: "put_counts (fst (rs ! i)) = put_counts (sys ! i)"
      and gc1: "get_counts (fst (rs ! i)) = get_counts (sys ! i)"
      by auto
    have "i < length (map fst rs)" using i len_rs by simp
    from deliver_fields [OF this, of "concat (map snd rs)"] i len_rs have
      pc2: "put_counts (mid ! i) = put_counts (fst (rs ! i))"
      and gc2: "get_counts (mid ! i) = get_counts (fst (rs ! i))"
      by (auto simp: mid)
    from each' i have "sync_back (mid ! i) = Inr (sys' ! i)" by simp
    from sync_back_shape [OF this] have
      "put_counts (sys' ! i) = replicate (length (put_counts (mid ! i))) 0"
      "get_counts (sys' ! i) = replicate (length (get_counts (mid ! i))) 0"
      "local_gets (sys' ! i) = 0" "remote_puts (sys' ! i) = 0" "remote_gets (sys' ! i) = 0"
      by auto
    moreover have "length (put_counts (sys ! i)) = length sys"
      and "length (get_counts (sys ! i)) = length sys"
      using lens i by simp_all
    ultimately show ?thesis
      by (simp add: quiet_def pc1 pc2 gc1 gc2 len')
  qed
  then show ?thesis
    by (auto simp: in_set_conv_nth len')
qed


lemmas run_defs =
  sync_all_def sync_all_front_def sync_all_back_def sync_front_def sync_back_def
  drain_puts.simps drain_gets.simps drain_get_responses.simps
  recv_put_def answer_get_def recv_get_response_def reduce_scatter_sum_def
  deliver_def deliver1_def enqueue_def mpi_send_def Let_def upt_rec
  system0_def system1_def system2_def


lemma system2_run: "at_peer 0 (\<lambda>p. internal_get p 1 4096 12288 4 0 1) system1 = Inr system2"
  by (simp add: at_peer_def internal_get_def incr_def run_defs example_defs)






lemma enqueue_answer:
  "is_answer e \<Longrightarrow> \<exists>c. enqueue e p = p\<lparr>rx_get_response := c\<rparr>"
  by (cases "env_frame e") (auto simp: is_answer_def enqueue_def)

lemma deliver1_answer:
  assumes "i < length sys" and "is_answer e"
  shows "\<exists>c. deliver1 e sys ! i = (sys ! i)\<lparr>rx_get_response := c\<rparr>"
proof (cases "0 \<le> env_dst e \<and> nat (env_dst e) < length sys \<and> nat (env_dst e) = i")
  case True
  then have "deliver1 e sys ! i = enqueue e (sys ! i)"
    by (auto simp: deliver1_def)
  then show ?thesis using enqueue_answer [OF assms(2), of "sys ! i"] by simp
next
  case False
  then have "deliver1 e sys ! i = sys ! i"
    using assms(1) by (auto simp: deliver1_def)
  then have "deliver1 e sys ! i = (sys ! i)\<lparr>rx_get_response := rx_get_response (sys ! i)\<rparr>"
    by simp
  then show ?thesis by blast
qed

lemma deliver_answers:
  "i < length sys \<Longrightarrow> \<forall>e \<in> set es. is_answer e \<Longrightarrow>
   \<exists>c. deliver es sys ! i = (sys ! i)\<lparr>rx_get_response := c\<rparr>"
proof (induction es arbitrary: sys)
  case Nil
  have "deliver [] sys ! i = (sys ! i)\<lparr>rx_get_response := rx_get_response (sys ! i)\<rparr>"
    by (simp add: deliver_def)
  then show ?case by blast
next
  case (Cons e es)
  from Cons.prems have e: "is_answer e" and es: "\<forall>e \<in> set es. is_answer e" by simp_all
  from deliver1_answer [OF Cons.prems(1) e]
  obtain c where one: "deliver1 e sys ! i = (sys ! i)\<lparr>rx_get_response := c\<rparr>"
    by blast
  have "i < length (deliver1 e sys)" using Cons.prems(1) by simp
  from Cons.IH [OF this es]
  obtain c' where rest: "deliver es (deliver1 e sys) ! i = (deliver1 e sys ! i)\<lparr>rx_get_response := c'\<rparr>"
    by blast
  have "deliver (e # es) sys = deliver es (deliver1 e sys)"
    by (simp add: deliver_def)
  then have "deliver (e # es) sys ! i = (sys ! i)\<lparr>rx_get_response := c'\<rparr>"
    using one rest by simp
  then show ?case by blast
qed

lemma answers_sent_are_answers: "\<forall>e \<in> set (answers_sent me gs). is_answer e"
  by (auto simp: answers_sent_def is_answer_def)

lemma sync_all_front_answers:
  assumes "length rs = length sys"
    and "\<forall>i < length sys. sync_front (f i) (g i) (sys ! i) = Inr (rs ! i)"
    and "i < length sys"
  shows "\<exists>c. deliver (concat (map snd rs)) (map fst rs) ! i = (fst (rs ! i))\<lparr>rx_get_response := c\<rparr>"
proof -
  have "\<forall>e \<in> set (concat (map snd rs)). is_answer e"
  proof
    fix e assume "e \<in> set (concat (map snd rs))"
    then obtain out where "out \<in> set (map snd rs)" and e: "e \<in> set out"
      by auto
    then obtain j where j: "j < length rs" and "out = snd (rs ! j)"
      by (auto simp: in_set_conv_nth)
    with e have e: "e \<in> set (snd (rs ! j))" by simp
    from assms(1,2) j have "sync_front (f j) (g j) (sys ! j) = Inr (fst (rs ! j), snd (rs ! j))"
      by simp
    from sync_front_shape [OF this] obtain gs where "snd (rs ! j) = answers_sent (pid (sys ! j)) gs"
      by blast
    with e answers_sent_are_answers show "is_answer e" by simp
  qed
  moreover have "i < length (map fst rs)" using assms(1,3) by simp
  ultimately obtain c where
    "deliver (concat (map snd rs)) (map fst rs) ! i = (map fst rs ! i)\<lparr>rx_get_response := c\<rparr>"
    using deliver_answers by blast
  moreover have "map fst rs ! i = fst (rs ! i)" using assms(1,3) by simp
  ultimately have "deliver (concat (map snd rs)) (map fst rs) ! i = (fst (rs ! i))\<lparr>rx_get_response := c\<rparr>"
    by simp
  then show ?thesis by blast
qed
















lemma sync_all_invariants:
  assumes wf: "wf_group sys" and agree: "puts_agree sys" and sync: "sync_all sys = Inr sys'"
  shows "wf_group sys' \<and> puts_agree sys'"
proof -
  from sync_all_steps [OF sync] obtain rs mid where
    len_rs: "length rs = length sys"
    and each: "\<forall>i < length sys.
               sync_front (sum_list (map (\<lambda>p. put_counts p ! i) sys))
                          (sum_list (map (\<lambda>p. get_counts p ! i) sys)) (sys ! i) = Inr (rs ! i)"
    and mid: "mid = deliver (concat (map snd rs)) (map fst rs)"
    and len': "length sys' = length sys"
    and each': "\<forall>i < length sys. sync_back (mid ! i) = Inr (sys' ! i)"
    by blast
  from sync_all_leaves_quiet [OF sync] have q: "\<forall>p \<in> set sys'. quiet (length sys') p" .
  have facts: "pid (sys' ! i) = int i \<and> rx_put (sys' ! i) = []
               \<and> put_counts (sys' ! i) = replicate (length sys') 0" if i: "i < length sys" for i
  proof -
    have total: "sum_list (map (\<lambda>p. put_counts p ! i) sys) = int (length (rx_put (sys ! i)))"
      using agree i by (simp add: puts_agree_def)
    from each i have "sync_front (sum_list (map (\<lambda>p. put_counts p ! i) sys))
                          (sum_list (map (\<lambda>p. get_counts p ! i) sys)) (sys ! i)
                      = Inr (rs ! i)"
      by blast
    then have "sync_front (int (length (rx_put (sys ! i))))
                          (sum_list (map (\<lambda>p. get_counts p ! i) sys)) (sys ! i)
                      = Inr (fst (rs ! i), snd (rs ! i))"
      by (simp add: total)
    from sync_front_shape [OF this] have
      a: "pid (fst (rs ! i)) = pid (sys ! i)" "rx_put (fst (rs ! i)) = []"
      by auto
    from sync_all_front_answers [OF len_rs each i] obtain c where
      mid_i: "mid ! i = (fst (rs ! i))\<lparr>rx_get_response := c\<rparr>"
      by (auto simp: mid)
    from each' i have "sync_back (mid ! i) = Inr (sys' ! i)" by simp
    from sync_back_shape [OF this] have
      b: "pid (sys' ! i) = pid (mid ! i)" "rx_put (sys' ! i) = rx_put (mid ! i)"
      by auto
    have "sys' ! i \<in> set sys'" using i len' by simp
    with q have "put_counts (sys' ! i) = replicate (length sys') 0"
      by (simp add: quiet_def)
    with a b wf i show ?thesis by (simp add: mid_i wf_group_def)
  qed
  have "wf_group sys'"
    using facts by (simp add: wf_group_def len')
  moreover have "puts_agree sys'"
    unfolding puts_agree_def
  proof (intro allI impI)
    fix d assume "d < length sys'"
    then have d: "d < length sys" by (simp add: len')
    have "sum_list (map (\<lambda>p. put_counts p ! d) sys') = 0"
    proof (rule sum_list_zeros)
      fix p assume "p \<in> set sys'"
      with q have "put_counts p = replicate (length sys') 0" by (simp add: quiet_def)
      then show "put_counts p ! d = 0" using d by (simp add: len')
    qed
    then show "int (length (rx_put (sys' ! d))) = sum_list (map (\<lambda>p. put_counts p ! d) sys')"
      using facts [OF d] by simp
  qed
  ultimately show ?thesis by simp
qed

lemma fresh_group_invariants:
  "wf_group (map (\<lambda>i. world_provider (int i) (int n) (m i)) [0..<n])
   \<and> puts_agree (map (\<lambda>i. world_provider (int i) (int n) (m i)) [0..<n])"
proof -
  have "sum_list (map (\<lambda>p. put_counts p ! d)
          (map (\<lambda>i. world_provider (int i) (int n) (m i)) [0..<n])) = 0" if "d < n" for d
    using that by (intro sum_list_zeros) (auto simp: world_provider_def)
  then show ?thesis
    by (simp add: wf_group_def puts_agree_def world_provider_def)
qed







subsection \<open>Moving a distributed variable\<close>

lemma one_var_run: "var_construct 0 4096 4 no_vars = Inr one_var"
  by (auto simp: var_construct_def var_impl_construct_def no_vars_def one_var_def)

lemma two_vars_run: "var_construct 1 8192 4 one_var = Inr two_vars"
  by (auto simp: var_construct_def var_impl_construct_def one_var_def two_vars_def)

text \<open>
  C10: let a variable that owns a registration be moved into another variable, by the
  move constructor or by the move assignment. Afterwards the destination holds that
  registration with its id and the moved-from variable holds none; destroying the
  moved-from variable makes no call to the world, neither the barrier nor an
  unregistration; destroying the destination makes the barrier and one unregistration of
  that id. A registration that the destination of a move assignment owned before is
  unregistered once, at the assignment.
\<close>

theorem moved_var_registration:
  assumes "objects st other = Some (Some i)" and "other \<noteq> v"
  shows "(objects st v = None \<longrightarrow>
           (\<exists>st1 st2 st3.
              var_move_construct v other st = Inr st1
            \<and> objects st1 v = Some (Some i) \<and> objects st1 other = Some None
            \<and> calls st1 = calls st
            \<and> var_destroy other st1 = Inr st2
            \<and> calls st2 = calls st1 \<and> objects st2 v = Some (Some i)
            \<and> var_destroy v st2 = Inr st3
            \<and> calls st3 = calls st @ [World_barrier, World_unregister (impl_id i)]))
       \<and> (\<forall>old. objects st v = Some old \<longrightarrow>
           (\<exists>st1 st2 st3.
              var_move_assign v other st = Inr st1
            \<and> objects st1 v = Some (Some i) \<and> objects st1 other = Some None
            \<and> calls st1 = calls st @ (case old of None \<Rightarrow> []
                                         | Some j \<Rightarrow> [World_unregister (impl_id j)])
            \<and> var_destroy other st1 = Inr st2
            \<and> calls st2 = calls st1 \<and> objects st2 v = Some (Some i)
            \<and> var_destroy v st2 = Inr st3
            \<and> calls st3 = calls st1 @ [World_barrier, World_unregister (impl_id i)]))"
proof (intro conjI allI impI)
  assume new: "objects st v = None"
  define st1 where "st1 = st\<lparr>objects := (objects st)(v := Some (Some i), other := Some None)\<rparr>"
  define st2 where "st2 = st1\<lparr>objects := (objects st1)(other := None)\<rparr>"
  define st3 where "st3 = st2\<lparr>objects := (objects st2)(v := None),
                            calls := calls st @ [World_barrier, World_unregister (impl_id i)]\<rparr>"
  have m: "var_move_construct v other st = Inr st1"
    using assms new
    by (simp add: var_move_construct_def move_impl_def Let_def unique_ptr_reset_def st1_def
        fun_upd_twist)
  have d1: "var_destroy other st1 = Inr st2"
    using assms by (simp add: var_destroy_def Let_def unique_ptr_reset_def st1_def st2_def)
  have d2: "var_destroy v st2 = Inr st3"
    using assms
    by (simp add: var_destroy_def Let_def unique_ptr_reset_def var_impl_destroy_def
        st1_def st2_def st3_def)
  have "objects st1 v = Some (Some i)" "objects st1 other = Some None" "calls st1 = calls st"
    "calls st2 = calls st1" "objects st2 v = Some (Some i)"
    "calls st3 = calls st @ [World_barrier, World_unregister (impl_id i)]"
    using assms by (simp_all add: st1_def st2_def st3_def)
  with m d1 d2 show "\<exists>st1 st2 st3.
              var_move_construct v other st = Inr st1
            \<and> objects st1 v = Some (Some i) \<and> objects st1 other = Some None
            \<and> calls st1 = calls st
            \<and> var_destroy other st1 = Inr st2
            \<and> calls st2 = calls st1 \<and> objects st2 v = Some (Some i)
            \<and> var_destroy v st2 = Inr st3
            \<and> calls st3 = calls st @ [World_barrier, World_unregister (impl_id i)]"
    by blast
next
  fix old assume old: "objects st v = Some old"
  define st1 where "st1 = st\<lparr>objects := (objects st)(other := Some None, v := Some (Some i)),
                            calls := calls st @ (case old of None \<Rightarrow> []
                                                 | Some j \<Rightarrow> [World_unregister (impl_id j)])\<rparr>"
  define st2 where "st2 = st1\<lparr>objects := (objects st1)(other := None)\<rparr>"
  define st3 where "st3 = st2\<lparr>objects := (objects st2)(v := None),
                            calls := calls st1 @ [World_barrier, World_unregister (impl_id i)]\<rparr>"
  have m: "var_move_assign v other st = Inr st1"
    using assms old
    by (cases old)
      (simp_all add: var_move_assign_def move_impl_def Let_def unique_ptr_reset_def
        var_impl_destroy_def st1_def)
  have d1: "var_destroy other st1 = Inr st2"
    using assms by (simp add: var_destroy_def Let_def unique_ptr_reset_def st1_def st2_def)
  have d2: "var_destroy v st2 = Inr st3"
    using assms
    by (simp add: var_destroy_def Let_def unique_ptr_reset_def var_impl_destroy_def
        st1_def st2_def st3_def)
  have "objects st1 v = Some (Some i)" "objects st1 other = Some None"
    "calls st1 = calls st @ (case old of None \<Rightarrow> [] | Some j \<Rightarrow> [World_unregister (impl_id j)])"
    "calls st2 = calls st1" "objects st2 v = Some (Some i)"
    "calls st3 = calls st1 @ [World_barrier, World_unregister (impl_id i)]"
    using assms by (simp_all add: st1_def st2_def st3_def)
  with m d1 d2 show "\<exists>st1 st2 st3.
              var_move_assign v other st = Inr st1
            \<and> objects st1 v = Some (Some i) \<and> objects st1 other = Some None
            \<and> calls st1 = calls st @ (case old of None \<Rightarrow> []
                                         | Some j \<Rightarrow> [World_unregister (impl_id j)])
            \<and> var_destroy other st1 = Inr st2
            \<and> calls st2 = calls st1 \<and> objects st2 v = Some (Some i)
            \<and> var_destroy v st2 = Inr st3
            \<and> calls st3 = calls st1 @ [World_barrier, World_unregister (impl_id i)]"
    by blast
qed


theorem moved_var_registration_witness:
  "(\<exists>st1 st2 st3.
      var_move_construct 1 0 one_var = Inr st1 \<and> var_destroy 0 st1 = Inr st2
    \<and> var_destroy 1 st2 = Inr st3
    \<and> calls st3 = [World_register 4096 4 0, World_barrier, World_unregister 0])
   \<and> (\<exists>st1 st2 st3.
      var_move_assign 1 0 two_vars = Inr st1 \<and> var_destroy 0 st1 = Inr st2
    \<and> var_destroy 1 st2 = Inr st3
    \<and> calls st3 = [World_register 4096 4 0, World_register 8192 4 1, World_unregister 1,
                    World_barrier, World_unregister 0])"
proof -
  have a1: "objects one_var 0 = Some (Some \<lparr>value_at = 4096, impl_id = 0\<rparr>)"
    and a2: "(0::nat) \<noteq> 1" and a3: "objects one_var 1 = None"
    by (simp_all add: one_var_def)
  from moved_var_registration [OF a1 a2] a3
  obtain st1 st2 st3 where
    "var_move_construct 1 0 one_var = Inr st1" "var_destroy 0 st1 = Inr st2"
    "var_destroy 1 st2 = Inr st3"
    "calls st3 = calls one_var @ [World_barrier,
                   World_unregister (impl_id \<lparr>value_at = 4096, impl_id = 0\<rparr>)]"
    by blast
  then have first: "\<exists>st1 st2 st3.
      var_move_construct 1 0 one_var = Inr st1 \<and> var_destroy 0 st1 = Inr st2
    \<and> var_destroy 1 st2 = Inr st3
    \<and> calls st3 = [World_register 4096 4 0, World_barrier, World_unregister 0]"
    by (auto simp: one_var_def)
  have b1: "objects two_vars 0 = Some (Some \<lparr>value_at = 4096, impl_id = 0\<rparr>)"
    and b3: "objects two_vars 1 = Some (Some \<lparr>value_at = 8192, impl_id = 1\<rparr>)"
    by (simp_all add: two_vars_def)
  from moved_var_registration [OF b1 a2] b3
  obtain st1 st2 st3 where
    "var_move_assign 1 0 two_vars = Inr st1" "var_destroy 0 st1 = Inr st2"
    "var_destroy 1 st2 = Inr st3"
    "calls st1 = calls two_vars @
       (case Some \<lparr>value_at = 8192, impl_id = 1\<rparr> of None \<Rightarrow> []
        | Some j \<Rightarrow> [World_unregister (impl_id j)])"
    "calls st3 = calls st1 @ [World_barrier,
                   World_unregister (impl_id \<lparr>value_at = 4096, impl_id = 0\<rparr>)]"
    by blast
  then have second: "\<exists>st1 st2 st3.
      var_move_assign 1 0 two_vars = Inr st1 \<and> var_destroy 0 st1 = Inr st2
    \<and> var_destroy 1 st2 = Inr st3
    \<and> calls st3 = [World_register 4096 4 0, World_register 8192 4 1, World_unregister 1,
                    World_barrier, World_unregister 0]"
    by (auto simp: two_vars_def)
  from first second show ?thesis by (rule conjI)
qed

end
